theory Spec2Isabelle
  imports Complex_Main "HOL-Library.AList"
begin

section \<open>The file system the cache runs on\<close>

text \<open>
  \<open>src/index.ts\<close> keeps every cache entry as one file of a directory and reaches the
  disk only through Node's \<open>fs\<close> module. The disk is modelled as a tree: a regular file
  carries its content and its modification time (milliseconds since the epoch, what
  \<open>stats.mtime.getTime()\<close> returns), a directory carries its entries in the order
  \<open>readdir\<close> lists them. A path is the list of its components below \<open>/\<close>.

  A call fails only for a reason the shape of the tree gives (a missing component, a file
  where a directory is needed, and so on): the process has full access to the tree and the
  disk is never full.
\<close>

datatype error = ENOENT | EEXIST | ENOTDIR | EISDIR | ENOTEMPTY | EBUSY | SyntaxError

datatype node = File string int | Dir "(string \<times> node) list"

type_synonym path = "string list"

fun isFile :: "node \<Rightarrow> bool" where
  "isFile (File data m) = True"
| "isFile (Dir es) = False"

fun isDirectory :: "node \<Rightarrow> bool" where
  "isDirectory (File data m) = False"
| "isDirectory (Dir es) = True"

text \<open>
  \<open>stats.mtime\<close> is read only of a regular file; the tree keeps no modification time
  for a directory.
\<close>

fun mtime :: "node \<Rightarrow> int" where
  "mtime (File data m) = m"
| "mtime (Dir es) = 0"

text \<open>The node a path leads to; what \<open>stat\<close> and \<open>lstat\<close> report (the tree has no links).\<close>

fun lookup :: "node \<Rightarrow> path \<Rightarrow> error + node" where
  "lookup n [] = Inr n"
| "lookup (File data m) (c # cs) = Inl ENOTDIR"
| "lookup (Dir es) (c # cs) =
     (case map_of es c of None \<Rightarrow> Inl ENOENT | Some n \<Rightarrow> lookup n cs)"

text \<open>
  Every call that changes the tree changes one entry of one directory: \<open>alter\<close> walks to
  the parent of the path and applies there what the call does to the entry (\<open>None\<close> when
  the name is free). The path \<open>/\<close> itself can be touched but neither created nor removed.
\<close>

fun alter :: "(node option \<Rightarrow> error + node option) \<Rightarrow> path \<Rightarrow> node \<Rightarrow> error + node" where
  "alter f [] n =
     (case f (Some n) of Inl e \<Rightarrow> Inl e | Inr None \<Rightarrow> Inl EBUSY | Inr (Some n') \<Rightarrow> Inr n')"
| "alter f (c # cs) (File data m) = Inl ENOTDIR"
| "alter f [c] (Dir es) =
     (case f (map_of es c) of
        Inl e \<Rightarrow> Inl e
      | Inr None \<Rightarrow> Inr (Dir (AList.delete c es))
      | Inr (Some n) \<Rightarrow> Inr (Dir (AList.update c n es)))"
| "alter f (c # d # cs) (Dir es) =
     (case map_of es c of
        None \<Rightarrow> Inl ENOENT
      | Some n \<Rightarrow>
          (case alter f (d # cs) n of
             Inl e \<Rightarrow> Inl e
           | Inr n' \<Rightarrow> Inr (Dir (AList.update c n' es))))"

fun mkdir_at :: "node option \<Rightarrow> error + node option" where
  "mkdir_at None = Inr (Some (Dir []))"
| "mkdir_at (Some n) = Inl EEXIST"

fun rmdir_at :: "node option \<Rightarrow> error + node option" where
  "rmdir_at None = Inl ENOENT"
| "rmdir_at (Some (File data m)) = Inl ENOTDIR"
| "rmdir_at (Some (Dir [])) = Inr None"
| "rmdir_at (Some (Dir (e # es))) = Inl ENOTEMPTY"

fun unlink_at :: "node option \<Rightarrow> error + node option" where
  "unlink_at None = Inl ENOENT"
| "unlink_at (Some (File data m)) = Inr None"
| "unlink_at (Some (Dir es)) = Inl EISDIR"

fun writeFile_at :: "string \<Rightarrow> int \<Rightarrow> node option \<Rightarrow> error + node option" where
  "writeFile_at data t None = Inr (Some (File data t))"
| "writeFile_at data t (Some (File old m)) = Inr (Some (File data t))"
| "writeFile_at data t (Some (Dir es)) = Inl EISDIR"

text \<open>
  \<open>utimes\<close> is handed the time of a \<open>Date\<close>, or \<open>NaN\<close> (\<open>None\<close> here) when the \<open>Date\<close> is
  invalid; \<open>NaN\<close> leaves the modification time as it is.
\<close>

fun utimes_at :: "int option \<Rightarrow> node option \<Rightarrow> error + node option" where
  "utimes_at t None = Inl ENOENT"
| "utimes_at None (Some n) = Inr (Some n)"
| "utimes_at (Some t) (Some (File data m)) = Inr (Some (File data t))"
| "utimes_at (Some t) (Some (Dir es)) = Inr (Some (Dir es))"

section \<open>What the class holds, and the world it runs in\<close>

text \<open>
  \<open>options: any\<close> is read only through \<open>options.ttl\<close>: a number of seconds, or absent.
  \<open>x || y\<close> takes \<open>y\<close> when \<open>x\<close> is absent or \<open>0\<close>.
\<close>

record options =
  ttl :: "int option"

fun or_else :: "int option \<Rightarrow> int \<Rightarrow> int" where
  "or_else None y = y"
| "or_else (Some x) y = (if x = 0 then y else x)"

record FileCache =
  options :: options
  cache :: unit
  path :: path
  ttl :: int

text \<open>
  The functions the source takes from its platform: \<open>sha1\<close> (the hex digest computed by
  \<open>crypto\<close>), \<open>JSON.stringify\<close> and \<open>JSON.parse\<close>. They are parameters of the model;
  \<open>'v\<close> is the type of the values a caller stores.
\<close>

record 'v platform =
  sha1 :: "string \<Rightarrow> string"
  JSON_stringify :: "'v \<Rightarrow> string"
  JSON_parse :: "string \<Rightarrow> error + 'v"

text \<open>
  A promise that is not awaited is work still to be done when the caller goes on.
  \<open>deleteFolderRecursive\<close> calls \<open>unlink(curPath)\<close> and \<open>rmdir(folder)\<close> without
  \<open>await\<close>: each call hands a request to Node's thread pool, and the request takes effect
  on the disk at some later moment. The constructor calls \<open>this.createFolder()\<close> without
  \<open>await\<close> (a constructor cannot wait): the run of \<open>createFolder\<close> happens after the
  constructor has returned.

  The world is the disk, the clock (\<open>Date.now()\<close>, milliseconds), the requests handed to
  the thread pool and not yet carried out, the runs of \<open>createFolder\<close> started and not yet
  carried out, and the schedule of the thread pool: before each later access of the
  program to the disk, the requests (by position in \<open>pending\<close>) that take effect first.

  A file system keeps only the timestamps of its own range and resolution: \<open>stores\<close> gives,
  for a time in milliseconds handed to it, the modification time read back afterwards.
\<close>

datatype request = Unlink path | Rmdir path

record world =
  disk :: node
  now :: int
  stores :: "int \<Rightarrow> int"
  pending :: "request list"
  started :: "FileCache list"
  sched :: "nat list list"

text \<open>A request that fails rejects a promise nobody holds: the disk stays as it is.\<close>

fun perform :: "request \<Rightarrow> node \<Rightarrow> node" where
  "perform (Unlink p) d = (case alter unlink_at p d of Inl e \<Rightarrow> d | Inr d' \<Rightarrow> d')"
| "perform (Rmdir p) d = (case alter rmdir_at p d of Inl e \<Rightarrow> d | Inr d' \<Rightarrow> d')"

definition complete :: "nat \<Rightarrow> world \<Rightarrow> world" where
  "complete i w =
     (if i < length (pending w)
      then w\<lparr>disk := perform (pending w ! i) (disk w),
             pending := take i (pending w) @ drop (Suc i) (pending w)\<rparr>
      else w)"

definition poll :: "world \<Rightarrow> world" where
  "poll w = (case sched w of [] \<Rightarrow> w | is # rest \<Rightarrow> fold complete is (w\<lparr>sched := rest\<rparr>))"

text \<open>
  The awaited calls of \<open>fs\<close>. Each returns its result, or the error it rejects with, and
  the world after it.
\<close>

definition mkdir :: "path \<Rightarrow> world \<Rightarrow> (error + unit) \<times> world" where
  "mkdir p w =
     (let w1 = poll w in
      case alter mkdir_at p (disk w1) of
        Inl e \<Rightarrow> (Inl e, w1)
      | Inr d \<Rightarrow> (Inr (), w1\<lparr>disk := d\<rparr>))"

definition unlink :: "path \<Rightarrow> world \<Rightarrow> (error + unit) \<times> world" where
  "unlink p w =
     (let w1 = poll w in
      case alter unlink_at p (disk w1) of
        Inl e \<Rightarrow> (Inl e, w1)
      | Inr d \<Rightarrow> (Inr (), w1\<lparr>disk := d\<rparr>))"

definition stat :: "path \<Rightarrow> world \<Rightarrow> (error + node) \<times> world" where
  "stat p w = (let w1 = poll w in (lookup (disk w1) p, w1))"

definition readdir :: "path \<Rightarrow> world \<Rightarrow> (error + string list) \<times> world" where
  "readdir p w =
     (let w1 = poll w in
      case lookup (disk w1) p of
        Inl e \<Rightarrow> (Inl e, w1)
      | Inr (File data m) \<Rightarrow> (Inl ENOTDIR, w1)
      | Inr (Dir es) \<Rightarrow> (Inr (map fst es), w1))"

definition readFile :: "path \<Rightarrow> world \<Rightarrow> (error + string) \<times> world" where
  "readFile p w =
     (let w1 = poll w in
      case lookup (disk w1) p of
        Inl e \<Rightarrow> (Inl e, w1)
      | Inr (File data m) \<Rightarrow> (Inr data, w1)
      | Inr (Dir es) \<Rightarrow> (Inl EISDIR, w1))"

text \<open>
  A file that is written gets the time of the write, as the file system stores it, as its
  modification time.
\<close>

definition writeFile :: "path \<Rightarrow> string \<Rightarrow> world \<Rightarrow> (error + unit) \<times> world" where
  "writeFile p data w =
     (let w1 = poll w in
      case alter (writeFile_at data (stores w1 (now w1))) p (disk w1) of
        Inl e \<Rightarrow> (Inl e, w1)
      | Inr d \<Rightarrow> (Inr (), w1\<lparr>disk := d\<rparr>))"

text \<open>
  \<open>new Date(ms)\<close>: a \<open>Date\<close> holds at most 8.64e15 milliseconds on either side of the
  epoch; beyond that it is an Invalid Date, whose time is \<open>NaN\<close>.
\<close>

definition new_Date :: "int \<Rightarrow> int option" where
  "new_Date ms = (if \<bar>ms\<bar> \<le> 8640000000000000 then Some ms else None)"

text \<open>
  \<open>utimes(path, atime, mtime)\<close> with two \<open>Date\<close>s; the tree keeps no access time, and the
  file system stores the modification time in its own range.
\<close>

definition utimes ::
  "path \<Rightarrow> int option \<Rightarrow> int option \<Rightarrow> world \<Rightarrow> (error + unit) \<times> world" where
  "utimes p atime t w =
     (let w1 = poll w in
      case alter (utimes_at (map_option (stores w1) t)) p (disk w1) of
        Inl e \<Rightarrow> (Inl e, w1)
      | Inr d \<Rightarrow> (Inr (), w1\<lparr>disk := d\<rparr>))"

text \<open>
  \<open>path.join(folder, name)\<close> for a name that is one component or empty (\<open>readdir\<close>
  returns single components, a hex digest is one): joining the empty name gives the
  folder itself.
\<close>

definition join :: "path \<Rightarrow> string \<Rightarrow> path" where
  "join folder name = (if name = [] then folder else folder @ [name])"

section \<open>The class \<open>FileCache\<close>\<close>

text \<open>\<open>Math.floor(Date.now() / 1000)\<close>: the clock in whole seconds.\<close>

definition time :: "world \<Rightarrow> int" where
  "time w = now w div 1000"

definition getPath :: "'v platform \<Rightarrow> FileCache \<Rightarrow> string \<Rightarrow> path" where
  "getPath L this key = join (path this) (sha1 L key)"

text \<open>
  \<open>validate\<close>: the \<open>catch\<close> covers \<open>stat\<close> and \<open>unlink\<close> alike; it turns \<open>ENOENT\<close> into
  \<open>false\<close> and throws every other error again.
\<close>

definition catch_ENOENT :: "error \<Rightarrow> world \<Rightarrow> (error + bool) \<times> world" where
  "catch_ENOENT error w = (if error = ENOENT then (Inr False, w) else (Inl error, w))"

definition validate :: "path \<Rightarrow> world \<Rightarrow> (error + bool) \<times> world" where
  "validate file w =
     (case stat file w of
        (Inl error, w1) \<Rightarrow> catch_ENOENT error w1
      | (Inr stats, w1) \<Rightarrow>
          if isFile stats then
            (let modified = (of_int (mtime stats) :: rat) / 1000 in
             if of_int (time w1) < modified then (Inr True, w1)
             else (case unlink file w1 of
                     (Inl error, w2) \<Rightarrow> catch_ENOENT error w2
                   | (Inr u, w2) \<Rightarrow> (Inr False, w2)))
          else (Inr False, w1))"

definition has :: "'v platform \<Rightarrow> FileCache \<Rightarrow> string \<Rightarrow> world \<Rightarrow> (error + bool) \<times> world" where
  "has L this key w =
     (case validate (getPath L this key) w of
        (Inl error, w1) \<Rightarrow> (Inr False, w1)
      | (Inr v, w1) \<Rightarrow> (Inr v, w1))"

text \<open>
  \<open>get\<close> returns the parsed value, or \<open>null\<close> from its \<open>else\<close> branch: \<open>Some v\<close> and
  \<open>None\<close> here.
\<close>

definition get :: "'v platform \<Rightarrow> FileCache \<Rightarrow> string \<Rightarrow> world \<Rightarrow> (error + 'v option) \<times> world" where
  "get L this key w =
     (case has L this key w of
        (Inl error, w1) \<Rightarrow> (Inl error, w1)
      | (Inr b, w1) \<Rightarrow>
          if b then
            (case readFile (getPath L this key) w1 of
               (Inl error, w2) \<Rightarrow> (Inl error, w2)
             | (Inr data, w2) \<Rightarrow>
                 (case JSON_parse L data of
                    Inl error \<Rightarrow> (Inl error, w2)
                  | Inr v \<Rightarrow> (Inr (Some v), w2)))
          else (Inr None, w1))"

definition set_entry ::
  "'v platform \<Rightarrow> FileCache \<Rightarrow> string \<Rightarrow> 'v \<Rightarrow> options \<Rightarrow> world \<Rightarrow> (error + unit) \<times> world" where
  "set_entry L this key v opts w =
     (let data = JSON_stringify L v in
      case writeFile (getPath L this key) data w of
        (Inl error, w1) \<Rightarrow> (Inl error, w1)
      | (Inr u, w1) \<Rightarrow>
          utimes (getPath L this key) (new_Date (now w1))
            (new_Date (now w1 + or_else (options.ttl opts) (ttl this) * 1000)) w1)"

definition delete :: "'v platform \<Rightarrow> FileCache \<Rightarrow> string \<Rightarrow> world \<Rightarrow> (error + unit) \<times> world" where
  "delete L this key w = unlink (getPath L this key) w"

text \<open>
  \<open>file.split('.')\<close>: the pieces of the name between the dots, never an empty array.
\<close>

fun split :: "char \<Rightarrow> string \<Rightarrow> string list" where
  "split sep [] = [[]]"
| "split sep (c # cs) =
     (if c = sep then [] # split sep cs
      else (case split sep cs of [] \<Rightarrow> [[c]] | x # xs \<Rightarrow> (c # x) # xs))"

definition getAllKeys :: "FileCache \<Rightarrow> world \<Rightarrow> (error + string list) \<times> world" where
  "getAllKeys this w =
     (case readdir (path this) w of
        (Inl error, w1) \<Rightarrow> (if error = ENOENT then (Inr [], w1) else (Inl error, w1))
      | (Inr files, w1) \<Rightarrow> (Inr (map (\<lambda>file. hd (split CHR ''.'' file)) files), w1))"

text \<open>The \<open>for\<close> loop of \<open>validateCache\<close>, over the keys still to visit.\<close>

fun validateCache_loop :: "FileCache \<Rightarrow> string list \<Rightarrow> world \<Rightarrow> (error + unit) \<times> world" where
  "validateCache_loop this [] w = (Inr (), w)"
| "validateCache_loop this (key # keys) w =
     (case validate (join (path this) key) w of
        (Inl error, w1) \<Rightarrow> (Inl error, w1)
      | (Inr b, w1) \<Rightarrow> validateCache_loop this keys w1)"

definition validateCache :: "FileCache \<Rightarrow> world \<Rightarrow> (error + unit) \<times> world" where
  "validateCache this w =
     (case getAllKeys this w of
        (Inl error, w1) \<Rightarrow> (Inl error, w1)
      | (Inr keys, w1) \<Rightarrow> validateCache_loop this keys w1)"

definition createFolder :: "FileCache \<Rightarrow> world \<Rightarrow> (error + unit) \<times> world" where
  "createFolder this w =
     (case mkdir (path this) w of
        (Inl err, w1) \<Rightarrow> (if err \<noteq> EEXIST then (Inl err, w1) else validateCache this w1)
      | (Inr u, w1) \<Rightarrow> validateCache this w1)"

text \<open>
  \<open>deleteFolderRecursive\<close> has no \<open>await\<close> in its body, so a call runs to its end at once:
  it reads the tree with the synchronous calls and hands one request to the thread pool
  for every file (\<open>unlink\<close>) and, after the entries of a folder, one for the folder
  (\<open>rmdir\<close>), none of which it waits for. \<open>requests\<close> is the list a call on an existing
  node hands over, in the order of the calls; \<open>forEach\<close> is the loop over the entries,
  where an entry that is a directory is a nested call.
\<close>

fun requests :: "path \<Rightarrow> node \<Rightarrow> request list"
  and forEach :: "path \<Rightarrow> (string \<times> node) list \<Rightarrow> request list" where
  "requests curPath (File data m) = [Unlink curPath]"
| "requests curPath (Dir es) = forEach curPath es @ [Rmdir curPath]"
| "forEach folder [] = []"
| "forEach folder ((file, n) # es) = requests (join folder file) n @ forEach folder es"

text \<open>
  \<open>existsSync\<close> is false on any error of its \<open>stat\<close>; \<open>readdirSync\<close> of a regular file
  throws \<open>ENOTDIR\<close>, which rejects the promise of the call.
\<close>

definition deleteFolderRecursive :: "path \<Rightarrow> world \<Rightarrow> (error + unit) \<times> world" where
  "deleteFolderRecursive folder w =
     (let w1 = poll w in
      case lookup (disk w1) folder of
        Inl e \<Rightarrow> (Inr (), w1)
      | Inr (File data m) \<Rightarrow> (Inl ENOTDIR, w1)
      | Inr (Dir es) \<Rightarrow>
          (Inr (), w1\<lparr>pending := pending w1 @ forEach folder es @ [Rmdir folder]\<rparr>))"

definition clearFolder :: "FileCache \<Rightarrow> world \<Rightarrow> (error + unit) \<times> world" where
  "clearFolder this w = deleteFolderRecursive (path this) w"

definition clear :: "FileCache \<Rightarrow> world \<Rightarrow> (error + unit) \<times> world" where
  "clear this w =
     (case clearFolder this w of
        (Inl error, w1) \<Rightarrow> (Inl error, w1)
      | (Inr u, w1) \<Rightarrow> createFolder this w1)"

definition deleteAll :: "FileCache \<Rightarrow> world \<Rightarrow> (error + unit) \<times> world" where
  "deleteAll this w = clearFolder this w"

text \<open>
  The constructor fills the fields and starts \<open>createFolder\<close>; it returns before that
  run has touched the disk. \<open>resume\<close> is the event loop carrying out the oldest started
  run; an error of the run rejects a promise nobody holds.
\<close>

definition constructor :: "path \<Rightarrow> options \<Rightarrow> world \<Rightarrow> FileCache \<times> world" where
  "constructor p opts w =
     (let this = \<lparr>options = opts, cache = (), path = p,
                  ttl = or_else (options.ttl opts) (60 * 60 * 24)\<rparr>
      in (this, w\<lparr>started := started w @ [this]\<rparr>))"



text \<open>
  For the requests of \<open>deleteFolderRecursive\<close>: the path a request is for, a request
  moved below a folder, and the trees a real disk has (in every directory the names are
  distinct and not empty).
\<close>

fun target :: "request \<Rightarrow> path" where
  "target (Unlink p) = p"
| "target (Rmdir p) = p"

fun below :: "path \<Rightarrow> request \<Rightarrow> request" where
  "below p (Unlink q) = Unlink (p @ q)"
| "below p (Rmdir q) = Rmdir (p @ q)"

fun wellformed :: "node \<Rightarrow> bool" where
  "wellformed (File data m) = True"
| "wellformed (Dir es) =
     (distinct (map fst es) \<and> (\<forall>e\<in>set es. fst e \<noteq> [] \<and> wellformed (snd e)))"

section \<open>A small instance\<close>

text \<open>
  The examples below store booleans: \<open>JSON.stringify\<close> and \<open>JSON.parse\<close> on \<open>true\<close>
  and \<open>false\<close>, and the SHA-1 digests of the two keys they use, \<open>a\<close> and the empty key.
\<close>

definition example_platform :: "bool platform" where
  "example_platform =
     \<lparr>sha1 = (\<lambda>key. if key = ''a'' then ''86f7e437faa5a7fce15d1ddcb9eaeaea377667b8''
                     else ''da39a3ee5e6b4b0d3255bfef95601890afd80709''),
      JSON_stringify = (\<lambda>b. if b then ''true'' else ''false''),
      JSON_parse = (\<lambda>s. if s = ''true'' then Inr True
                         else if s = ''false'' then Inr False else Inl SyntaxError)\<rparr>"

text \<open>A cache at \<open>/tmp/cache\<close> with the default time to live.\<close>

definition example_cache :: FileCache where
  "example_cache =
     \<lparr>options = \<lparr>options.ttl = None\<rparr>, cache = (), path = [''tmp'', ''cache''], ttl = 86400\<rparr>"

text \<open>
  The timestamps of ext4: its seconds run from \<open>-2147483648\<close> to \<open>15032385535\<close>; a time
  in or beyond the first or the last second is stored as that whole second.
\<close>

definition ext4 :: "int \<Rightarrow> int" where
  "ext4 ms =
     (if 15032385535 \<le> ms div 1000 then 15032385535000
      else if ms div 1000 \<le> - 2147483648 then - 2147483648000
      else ms)"

text \<open>
  The world in which \<open>/tmp/cache\<close> is the given node on ext4, at the given time, with
  nothing left to the thread pool and no run started.
\<close>

definition example_world :: "node \<Rightarrow> int \<Rightarrow> world" where
  "example_world folder t =
     \<lparr>disk = Dir [(''tmp'', Dir [(''cache'', folder)])], now = t, stores = ext4,
      pending = [], started = [], sched = []\<rparr>"

text \<open>The entry of key \<open>a\<close> holding \<open>true\<close>, valid until second 2000.\<close>

definition entry_a :: "string \<times> node" where
  "entry_a = (''86f7e437faa5a7fce15d1ddcb9eaeaea377667b8'', File ''true'' 2000000)"

text \<open>The cache that \<open>new FileCache('/tmp/cache', {ttl: 10000000000000})\<close> builds.\<close>

definition huge_cache :: FileCache where
  "huge_cache =
     \<lparr>options = \<lparr>options.ttl = Some 10000000000000\<rparr>, cache = (),
      path = [''tmp'', ''cache''], ttl = 10000000000000\<rparr>"

section \<open>The file system calls\<close>

lemma complete_idle: "pending w = [] \<Longrightarrow> complete i w = w"
  by (simp add: complete_def)

lemma fold_complete_idle: "pending w = [] \<Longrightarrow> fold complete is w = w"
  by (induction "is") (simp_all add: complete_idle)

lemma poll_idle: "pending w = [] \<Longrightarrow> poll w = w\<lparr>sched := tl (sched w)\<rparr>"
  by (cases "sched w") (simp_all add: poll_def fold_complete_idle)

lemma lookup_append:
  "lookup d (p @ q) = (case lookup d p of Inl e \<Rightarrow> Inl e | Inr n \<Rightarrow> lookup n q)"
proof (induction p arbitrary: d)
  case Nil
  show ?case by simp
next
  case (Cons a p)
  show ?case
  proof (cases d)
    case (File data m)
    then show ?thesis by simp
  next
    case (Dir es)
    then show ?thesis using Cons.IH by (simp split: option.splits)
  qed
qed

lemma lookup_entry:
  "lookup d p = Inr (Dir es) \<Longrightarrow>
   lookup d (p @ [c]) = (case map_of es c of None \<Rightarrow> Inl ENOENT | Some n \<Rightarrow> Inr n)"
  by (simp add: lookup_append split: option.splits)

lemma alter_step:
  "cs \<noteq> [] \<Longrightarrow> alter f (c # cs) (Dir es) =
     (case map_of es c of
        None \<Rightarrow> Inl ENOENT
      | Some n \<Rightarrow> (case alter f cs n of Inl e \<Rightarrow> Inl e | Inr n' \<Rightarrow> Inr (Dir (AList.update c n' es))))"
  by (cases cs) (simp_all cong: option.case_cong)

lemma alter_entry_error:
  "lookup d p = Inr (Dir es) \<Longrightarrow> f (map_of es c) = Inl e \<Longrightarrow> alter f (p @ [c]) d = Inl e"
proof (induction p arbitrary: d)
  case Nil
  then show ?case by simp
next
  case (Cons a p)
  then obtain ds where d: "d = Dir ds" by (cases d) simp_all
  with Cons.prems obtain n where n: "map_of ds a = Some n" "lookup n p = Inr (Dir es)"
    by (auto split: option.splits)
  have "alter f (p @ [c]) n = Inl e" using Cons.IH [OF n(2) Cons.prems(2)] .
  then show ?case using d n by (simp add: alter_step)
qed

lemma alter_entry:
  "lookup d p = Inr (Dir es) \<Longrightarrow> f (map_of es c) = Inr r \<Longrightarrow>
   \<exists>d'. alter f (p @ [c]) d = Inr d' \<and>
        lookup d' p = Inr (Dir (case r of None \<Rightarrow> AList.delete c es | Some n \<Rightarrow> AList.update c n es))"
proof (induction p arbitrary: d)
  case Nil
  then show ?case by (simp split: option.splits)
next
  case (Cons a p)
  then obtain ds where d: "d = Dir ds" by (cases d) simp_all
  with Cons.prems obtain n where n: "map_of ds a = Some n" "lookup n p = Inr (Dir es)"
    by (auto split: option.splits)
  obtain n' where n': "alter f (p @ [c]) n = Inr n'"
    "lookup n' p = Inr (Dir (case r of None \<Rightarrow> AList.delete c es | Some n \<Rightarrow> AList.update c n es))"
    using Cons.IH [OF n(2) Cons.prems(2)] by blast
  show ?case using d n n' by (simp add: alter_step update_conv')
qed

lemma alter_missing:
  "lookup d p = Inl e \<Longrightarrow> alter f (p @ [c]) d = Inl e"
proof (induction p arbitrary: d)
  case Nil
  then show ?case by simp
next
  case (Cons a p)
  show ?case
  proof (cases d)
    case (File data m)
    then show ?thesis using Cons.prems by simp
  next
    case (Dir ds)
    then show ?thesis using Cons by (auto simp: alter_step split: option.splits)
  qed
qed

lemma time_sched [simp]: "time (w\<lparr>sched := s\<rparr>) = time w"
  by (simp add: time_def)

lemma stat_idle:
  "pending w = [] \<Longrightarrow> stat p w = (lookup (disk w) p, w\<lparr>sched := tl (sched w)\<rparr>)"
  by (simp add: stat_def poll_idle)

lemma unlink_idle:
  "pending w = [] \<Longrightarrow> unlink p w =
     (case alter unlink_at p (disk w) of
        Inl e \<Rightarrow> (Inl e, w\<lparr>sched := tl (sched w)\<rparr>)
      | Inr d \<Rightarrow> (Inr (), w\<lparr>sched := tl (sched w), disk := d\<rparr>))"
  by (simp add: unlink_def poll_idle Let_def split: sum.splits)

lemma alter_keeps_directory:
  "isDirectory d \<Longrightarrow> alter f (q @ [c]) d = Inr d' \<Longrightarrow> isDirectory d'"
  by (cases d; cases q) (auto simp: alter_step split: option.splits sum.splits)

lemma lookup_file_parent:
  assumes "lookup d (q @ [c]) = Inr n"
  shows "\<exists>es. lookup d q = Inr (Dir es) \<and> map_of es c = Some n"
proof (cases "lookup d q")
  case (Inl e)
  then show ?thesis using assms by (simp add: lookup_append)
next
  case (Inr x)
  then show ?thesis using assms by (cases x) (auto simp: lookup_append split: option.splits)
qed

lemma unlink_file:
  assumes "isDirectory d" "lookup d p = Inr (File data m)"
  shows "\<exists>d'. alter unlink_at p d = Inr d' \<and> lookup d' p = Inl ENOENT \<and> isDirectory d'"
proof (cases p rule: rev_cases)
  case Nil
  then show ?thesis using assms by (cases d) simp_all
next
  case (snoc q c)
  with assms(2) obtain es where es: "lookup d q = Inr (Dir es)" "map_of es c = Some (File data m)"
    using lookup_file_parent by blast
  have "unlink_at (map_of es c) = Inr None" using es(2) by simp
  from alter_entry [of d q es unlink_at c None, OF es(1) this]
  obtain d' where d': "alter unlink_at (q @ [c]) d = Inr d'" "lookup d' q = Inr (Dir (AList.delete c es))"
    by auto
  have "lookup d' (q @ [c]) = Inl ENOENT"
    using lookup_entry [OF d'(2), of c] by (simp add: delete_conv')
  moreover have "isDirectory d'"
    using d'(1) assms(1) by (rule alter_keeps_directory [rotated])
  ultimately show ?thesis using d'(1) snoc by simp
qed

lemma validate_error:
  "pending w = [] \<Longrightarrow> lookup (disk w) p = Inl e \<Longrightarrow>
   validate p w = (if e = ENOENT then Inr False else Inl e, w\<lparr>sched := tl (sched w)\<rparr>)"
  by (simp add: validate_def stat_idle catch_ENOENT_def)

lemma validate_dir:
  "pending w = [] \<Longrightarrow> lookup (disk w) p = Inr (Dir es) \<Longrightarrow>
   validate p w = (Inr False, w\<lparr>sched := tl (sched w)\<rparr>)"
  by (simp add: validate_def stat_idle)

lemma validate_live:
  "pending w = [] \<Longrightarrow> lookup (disk w) p = Inr (File data m) \<Longrightarrow>
   of_int (time w) < (of_int m :: rat) / 1000 \<Longrightarrow>
   validate p w = (Inr True, w\<lparr>sched := tl (sched w)\<rparr>)"
  by (simp add: validate_def stat_idle)

lemma validate_expired:
  "pending w = [] \<Longrightarrow> lookup (disk w) p = Inr (File data m) \<Longrightarrow>
   \<not> of_int (time w) < (of_int m :: rat) / 1000 \<Longrightarrow>
   alter unlink_at p (disk w) = Inr d' \<Longrightarrow>
   validate p w = (Inr False, w\<lparr>sched := tl (tl (sched w)), disk := d'\<rparr>)"
  by (simp add: validate_def stat_idle unlink_idle)

section \<open>Validation\<close>



text \<open>
  Claim C9. In a world with nothing left to the thread pool, \<open>has(k)\<close> called twice in a
  row, the clock standing still, returns the same boolean both times. A call that
  returns true leaves the disk as it is. An entry whose deadline has been reached is
  removed by the first call, and both calls return false.
\<close>

theorem has_twice:
  assumes "pending w = []" and "isDirectory (disk w)"
  shows "fst (has L this key (snd (has L this key w))) = fst (has L this key w)
       \<and> (fst (has L this key w) = Inr True \<longrightarrow> disk (snd (has L this key w)) = disk w)
       \<and> (\<forall>data m. lookup (disk w) (getPath L this key) = Inr (File data m)
              \<and> (of_int m :: rat) / 1000 \<le> of_int (time w) \<longrightarrow>
            fst (has L this key w) = Inr False
          \<and> lookup (disk (snd (has L this key w))) (getPath L this key) = Inl ENOENT
          \<and> fst (has L this key (snd (has L this key w))) = Inr False)"
proof (cases "lookup (disk w) (getPath L this key)")
  case (Inl e)
  then show ?thesis using assms(1) by (simp add: has_def validate_error)
next
  case (Inr n)
  show ?thesis
  proof (cases n)
    case (Dir es)
    then show ?thesis using assms(1) Inr by (simp add: has_def validate_dir)
  next
    case (File data m)
    show ?thesis
    proof (cases "of_int (time w) < (of_int m :: rat) / 1000")
      case True
      then show ?thesis using assms(1) Inr File by (simp add: has_def validate_live)
    next
      case False
      obtain d' where d': "alter unlink_at (getPath L this key) (disk w) = Inr d'"
        "lookup d' (getPath L this key) = Inl ENOENT"
        using unlink_file [OF assms(2)] Inr File by blast
      have v: "validate (getPath L this key) w = (Inr False, w\<lparr>sched := tl (tl (sched w)), disk := d'\<rparr>)"
        using validate_expired [OF assms(1) _ False d'(1)] Inr File by simp
      show ?thesis using assms(1) Inr File d'(2) by (simp add: has_def v validate_error)
    qed
  qed
qed

theorem has_twice_witness:
  "pending (example_world (Dir [entry_a]) 1999999) = []
 \<and> isDirectory (disk (example_world (Dir [entry_a]) 1999999))
 \<and> fst (has example_platform example_cache ''a'' (example_world (Dir [entry_a]) 1999999)) = Inr True
 \<and> fst (has example_platform example_cache ''a'' (snd (has example_platform example_cache ''a'' (example_world (Dir [entry_a]) 1999999)))) = Inr True
 \<and> disk (snd (has example_platform example_cache ''a'' (example_world (Dir [entry_a]) 1999999)))
      = disk (example_world (Dir [entry_a]) 1999999)
 \<and> lookup (disk (example_world (Dir [entry_a]) 2000000)) (getPath example_platform example_cache ''a'') = Inr (File ''true'' 2000000)
 \<and> (2000000 :: rat) / 1000 \<le> of_int (time (example_world (Dir [entry_a]) 2000000))
 \<and> fst (has example_platform example_cache ''a'' (example_world (Dir [entry_a]) 2000000)) = Inr False
 \<and> lookup (disk (snd (has example_platform example_cache ''a'' (example_world (Dir [entry_a]) 2000000)))) (getPath example_platform example_cache ''a'') = Inl ENOENT
 \<and> fst (has example_platform example_cache ''a'' (snd (has example_platform example_cache ''a'' (example_world (Dir [entry_a]) 2000000)))) = Inr False"
proof -
  have live: "fst (has example_platform example_cache ''a'' (example_world (Dir [entry_a]) 1999999)) = Inr True"
    by (simp add: has_def example_world_def entry_a_def example_platform_def example_cache_def
          getPath_def join_def time_def validate_def stat_def unlink_def readdir_def
          readFile_def writeFile_def utimes_def poll_def catch_ENOENT_def Let_def new_Date_def ext4_def)
  show ?thesis
    using live has_twice [of "example_world (Dir [entry_a]) 1999999" example_platform
          example_cache "''a''"]
      has_twice [of "example_world (Dir [entry_a]) 2000000" example_platform example_cache "''a''"]
    by (simp add: example_world_def entry_a_def example_platform_def example_cache_def
          getPath_def join_def time_def)
qed

section \<open>The public operations\<close>

text \<open>
  Claim C6. \<open>has(k)\<close> never rejects: it returns a boolean in every world. Whatever error
  \<open>validate\<close> throws, \<open>has\<close> swallows it and returns false; and whenever \<open>has\<close> returns
  false (the entry is missing, has expired, or validation failed) \<open>get\<close> returns null
  and does not throw.
\<close>

theorem has_never_throws:
  "(\<exists>b. fst (has L this key w) = Inr b)
 \<and> (\<forall>e. fst (validate (getPath L this key) w) = Inl e \<longrightarrow> fst (has L this key w) = Inr False)
 \<and> (fst (has L this key w) = Inr False \<longrightarrow> fst (get L this key w) = Inr None)"
  by (auto simp: has_def get_def split: prod.splits sum.splits)

text \<open>When \<open>/tmp/cache\<close> is a regular file, \<open>stat\<close> fails with \<open>ENOTDIR\<close>.\<close>

theorem has_never_throws_witness:
  "fst (validate (getPath example_platform example_cache ''a'') (example_world (File [] 0) 0)) = Inl ENOTDIR
 \<and> fst (has example_platform example_cache ''a'' (example_world (File [] 0) 0)) = Inr False
 \<and> fst (get example_platform example_cache ''a'' (example_world (File [] 0) 0)) = Inr None"
proof -
  have thrown: "fst (validate (getPath example_platform example_cache ''a'') (example_world (File [] 0) 0)) = Inl ENOTDIR"
    by (simp add: example_world_def entry_a_def example_platform_def example_cache_def
          getPath_def join_def time_def validate_def stat_def unlink_def readdir_def
          readFile_def writeFile_def utimes_def poll_def catch_ENOENT_def Let_def new_Date_def ext4_def)
  show ?thesis
    using thrown has_never_throws [of example_platform example_cache "''a''" "example_world
          (File [] 0) 0"]
    by simp
qed

lemma unlink_missing:
  assumes "lookup d p = Inl ENOENT"
  shows "alter unlink_at p d = Inl ENOENT"
proof (cases p rule: rev_cases)
  case Nil
  then show ?thesis using assms by simp
next
  case (snoc q c)
  show ?thesis
  proof (cases "lookup d q")
    case (Inl e)
    then have "e = ENOENT" using assms snoc by (simp add: lookup_append)
    then show ?thesis using Inl snoc by (simp add: alter_missing)
  next
    case (Inr n)
    show ?thesis
    proof (cases n)
      case (File data m)
      then show ?thesis using assms snoc Inr by (simp add: lookup_append)
    next
      case (Dir es)
      then have "map_of es c = None" using assms snoc Inr
        by (simp add: lookup_append split: option.splits)
      then have "unlink_at (map_of es c) = Inl ENOENT" by simp
      then show ?thesis using alter_entry_error Inr Dir snoc by blast
    qed
  qed
qed

text \<open>
  Claim C7. In a world with nothing left to the thread pool, when the hashed path of \<open>k\<close>
  does not exist, \<open>delete(k)\<close> rejects with the \<open>ENOENT\<close> of \<open>unlink\<close> and changes
  nothing, whereas \<open>validate\<close> and \<open>has\<close> return false there.
\<close>

theorem delete_missing_throws:
  assumes "pending w = []" and "lookup (disk w) (getPath L this key) = Inl ENOENT"
  shows "fst (delete L this key w) = Inl ENOENT
       \<and> disk (snd (delete L this key w)) = disk w
       \<and> fst (validate (getPath L this key) w) = Inr False
       \<and> fst (has L this key w) = Inr False"
  using assms by (simp add: delete_def unlink_idle unlink_missing validate_error has_def)

theorem delete_missing_throws_witness:
  "pending (example_world (Dir []) 0) = []
 \<and> lookup (disk (example_world (Dir []) 0)) (getPath example_platform example_cache ''a'') = Inl ENOENT
 \<and> fst (delete example_platform example_cache ''a'' (example_world (Dir []) 0)) = Inl ENOENT
 \<and> disk (snd (delete example_platform example_cache ''a'' (example_world (Dir []) 0))) = disk (example_world (Dir []) 0)
 \<and> fst (validate (getPath example_platform example_cache ''a'') (example_world (Dir []) 0)) = Inr False
 \<and> fst (has example_platform example_cache ''a'' (example_world (Dir []) 0)) = Inr False"
  using delete_missing_throws [of "example_world (Dir []) 0" example_platform example_cache
        "''a''"]
  by (simp add: example_world_def entry_a_def example_platform_def example_cache_def getPath_def
        join_def time_def)

section \<open>Listing the keys\<close>

lemma split_nonempty: "split sep s \<noteq> []"
  by (induction s) (auto split: list.splits)

lemma hd_split: "hd (split sep s) = takeWhile (\<lambda>c. c \<noteq> sep) s"
  using split_nonempty [of sep] by (induction s) (auto split: list.splits)

lemma readdir_idle:
  "pending w = [] \<Longrightarrow> readdir p w =
     (case lookup (disk w) p of
        Inl e \<Rightarrow> Inl e
      | Inr (File data m) \<Rightarrow> Inl ENOTDIR
      | Inr (Dir es) \<Rightarrow> Inr (map fst es), w\<lparr>sched := tl (sched w)\<rparr>)"
  by (simp add: readdir_def poll_idle Let_def split: sum.splits node.splits)

lemma getAllKeys_idle:
  "pending w = [] \<Longrightarrow> getAllKeys this w =
     (case lookup (disk w) (path this) of
        Inl e \<Rightarrow> if e = ENOENT then Inr [] else Inl e
      | Inr (File data m) \<Rightarrow> Inl ENOTDIR
      | Inr (Dir es) \<Rightarrow> Inr (map (\<lambda>e. takeWhile (\<lambda>c. c \<noteq> CHR ''.'') (fst e)) es),
      w\<lparr>sched := tl (sched w)\<rparr>)"
  by (simp add: getAllKeys_def readdir_idle hd_split split: sum.splits node.splits)

lemma takeWhile_id_iff: "takeWhile P xs = xs \<longleftrightarrow> (\<forall>x\<in>set xs. P x)"
  by (induction xs) auto

text \<open>
  Claim C8. In a world with nothing left to the thread pool, \<open>getAllKeys()\<close> validates
  nothing and leaves the disk as it is. When the root is a directory whose names contain
  no dot (as hex digests do), it returns the names of all its entries; when the root
  does not exist (\<open>ENOENT\<close>) it returns the empty list; every other error of \<open>readdir\<close>
  is thrown on.
\<close>

theorem getAllKeys_lists:
  assumes "pending w = []"
  shows "(\<forall>es. lookup (disk w) (path this) = Inr (Dir es) \<and> (\<forall>file\<in>fst ` set es. CHR ''.'' \<notin> set file) \<longrightarrow>
            fst (getAllKeys this w) = Inr (map fst es))
       \<and> (lookup (disk w) (path this) = Inl ENOENT \<longrightarrow> fst (getAllKeys this w) = Inr [])
       \<and> (\<forall>e. e \<noteq> ENOENT \<and> fst (readdir (path this) w) = Inl e \<longrightarrow> fst (getAllKeys this w) = Inl e)
       \<and> disk (snd (getAllKeys this w)) = disk w"
proof (intro conjI allI impI)
  fix es
  assume a: "lookup (disk w) (path this) = Inr (Dir es) \<and> (\<forall>file\<in>fst ` set es. CHR ''.'' \<notin> set file)"
  then have "map (\<lambda>e. takeWhile (\<lambda>c. c \<noteq> CHR ''.'') (fst e)) es = map fst es"
    by (auto simp: takeWhile_id_iff)
  then show "fst (getAllKeys this w) = Inr (map fst es)"
    using assms a by (simp add: getAllKeys_idle)
next
  assume "lookup (disk w) (path this) = Inl ENOENT"
  then show "fst (getAllKeys this w) = Inr []" using assms by (simp add: getAllKeys_idle)
next
  fix e
  assume "e \<noteq> ENOENT \<and> fst (readdir (path this) w) = Inl e"
  then show "fst (getAllKeys this w) = Inl e"
    by (auto simp: getAllKeys_def split: prod.splits sum.splits)
next
  show "disk (snd (getAllKeys this w)) = disk w"
    using assms by (simp add: getAllKeys_idle)
qed

theorem getAllKeys_lists_witness:
  "pending (example_world (Dir [entry_a]) 2000000) = []
 \<and> lookup (disk (example_world (Dir [entry_a]) 2000000)) (path example_cache) = Inr (Dir [entry_a])
 \<and> CHR ''.'' \<notin> set (fst entry_a)
 \<and> fst (getAllKeys example_cache (example_world (Dir [entry_a]) 2000000)) = Inr [fst entry_a]
 \<and> lookup (disk (example_world (Dir []) 0)) [''tmp'', ''cache'', ''gone''] = Inl ENOENT
 \<and> fst (getAllKeys (example_cache\<lparr>path := [''tmp'', ''cache'', ''gone'']\<rparr>) (example_world (Dir []) 0))
      = Inr []
 \<and> fst (readdir (path example_cache) (example_world (File [] 0) 0)) = Inl ENOTDIR
 \<and> fst (getAllKeys example_cache (example_world (File [] 0) 0)) = Inl ENOTDIR
 \<and> disk (snd (getAllKeys example_cache (example_world (Dir [entry_a]) 2000000)))
      = disk (example_world (Dir [entry_a]) 2000000)"
proof -
  have thrown: "fst (readdir (path example_cache) (example_world (File [] 0) 0)) = Inl ENOTDIR"
    by (simp add: example_world_def entry_a_def example_platform_def example_cache_def
          getPath_def join_def time_def validate_def stat_def unlink_def readdir_def
          readFile_def writeFile_def utimes_def poll_def catch_ENOENT_def Let_def new_Date_def ext4_def)
  show ?thesis
    using thrown
      getAllKeys_lists [of "example_world (Dir [entry_a]) 2000000" example_cache]
      getAllKeys_lists [of "example_world (Dir []) 0" "example_cache\<lparr>path := [''tmp'', ''cache'', ''gone'']\<rparr>"]
      getAllKeys_lists [of "example_world (File [] 0) 0" example_cache]
    by (simp add: example_world_def entry_a_def example_platform_def example_cache_def
          getPath_def join_def time_def)
qed

text \<open>
  Claim C10. In a world with nothing left to the thread pool and with the root a
  directory, \<open>getAllKeys()\<close> returns, for every entry, the part of its name before the
  first dot; the list it returns is the list of the names on disk exactly when no name
  contains a dot.
\<close>

theorem getAllKeys_truncates:
  assumes "pending w = []" and "lookup (disk w) (path this) = Inr (Dir es)"
  shows "fst (getAllKeys this w) = Inr (map (\<lambda>e. takeWhile (\<lambda>c. c \<noteq> CHR ''.'') (fst e)) es)
       \<and> (fst (getAllKeys this w) = Inr (map fst es) \<longleftrightarrow> (\<forall>file\<in>fst ` set es. CHR ''.'' \<notin> set file))"
proof -
  have 1: "fst (getAllKeys this w) = Inr (map (\<lambda>e. takeWhile (\<lambda>c. c \<noteq> CHR ''.'') (fst e)) es)"
    using assms by (simp add: getAllKeys_idle)
  have "map (\<lambda>e. takeWhile (\<lambda>c. c \<noteq> CHR ''.'') (fst e)) es = map fst es
          \<longleftrightarrow> (\<forall>file\<in>fst ` set es. CHR ''.'' \<notin> set file)"
    by (auto simp: takeWhile_id_iff)
  with 1 show ?thesis by simp
qed

theorem getAllKeys_truncates_witness:
  "pending (example_world (Dir [(''a.json'', File ''true'' 0), entry_a]) 0) = []
 \<and> lookup (disk (example_world (Dir [(''a.json'', File ''true'' 0), entry_a]) 0)) (path example_cache)
      = Inr (Dir [(''a.json'', File ''true'' 0), entry_a])
 \<and> fst (getAllKeys example_cache (example_world (Dir [(''a.json'', File ''true'' 0), entry_a]) 0))
      = Inr [''a'', fst entry_a]
 \<and> fst (getAllKeys example_cache (example_world (Dir [(''a.json'', File ''true'' 0), entry_a]) 0))
      \<noteq> Inr [''a.json'', fst entry_a]"
  using getAllKeys_truncates [of "example_world (Dir [(''a.json'', File ''true'' 0), entry_a]) 0"
          example_cache "[(''a.json'', File ''true'' 0), entry_a]"]
  by (simp add: example_world_def entry_a_def example_platform_def example_cache_def getPath_def
        join_def time_def)

section \<open>Storing and reading back\<close>

lemma writeFile_idle:
  "pending w = [] \<Longrightarrow> writeFile p data w =
     (case alter (writeFile_at data (stores w (now w))) p (disk w) of
        Inl e \<Rightarrow> (Inl e, w\<lparr>sched := tl (sched w)\<rparr>)
      | Inr d \<Rightarrow> (Inr (), w\<lparr>sched := tl (sched w), disk := d\<rparr>))"
  by (simp add: writeFile_def poll_idle Let_def split: sum.splits)

lemma utimes_idle:
  "pending w = [] \<Longrightarrow> utimes p a t w =
     (case alter (utimes_at (map_option (stores w) t)) p (disk w) of
        Inl e \<Rightarrow> (Inl e, w\<lparr>sched := tl (sched w)\<rparr>)
      | Inr d \<Rightarrow> (Inr (), w\<lparr>sched := tl (sched w), disk := d\<rparr>))"
  by (simp add: utimes_def poll_idle Let_def split: sum.splits)

lemma readFile_idle:
  "pending w = [] \<Longrightarrow> readFile p w =
     (case lookup (disk w) p of
        Inl e \<Rightarrow> Inl e
      | Inr (File data m) \<Rightarrow> Inr data
      | Inr (Dir es) \<Rightarrow> Inl EISDIR, w\<lparr>sched := tl (sched w)\<rparr>)"
  by (simp add: readFile_def poll_idle Let_def split: sum.splits node.splits)

text \<open>
  What \<open>set\<close> leaves on disk: the serialized value, with the deadline as the file system
  stores it, or with the time of the write when the deadline is not a valid \<open>Date\<close>.
\<close>

lemma set_entry_writes:
  assumes idle: "pending w = []"
    and root: "lookup (disk w) (path this) = Inr (Dir es)"
    and name: "sha1 L key \<noteq> []"
    and nodir: "\<forall>sub. map_of es (sha1 L key) \<noteq> Some (Dir sub)"
  shows "\<exists>w1. set_entry L this key v opts w = (Inr (), w1) \<and> pending w1 = [] \<and> now w1 = now w
           \<and> lookup (disk w1) (getPath L this key) =
               Inr (File (JSON_stringify L v)
                 (case new_Date (now w + or_else (options.ttl opts) (ttl this) * 1000) of
                    None \<Rightarrow> stores w (now w)
                  | Some d \<Rightarrow> stores w d))"
proof -
  let ?c = "sha1 L key" and ?data = "JSON_stringify L v"
  let ?t = "new_Date (now w + or_else (options.ttl opts) (ttl this) * 1000)"
  let ?written = "stores w (now w)"
  let ?m = "case ?t of None \<Rightarrow> ?written | Some d \<Rightarrow> stores w d"
  have p: "getPath L this key = path this @ [?c]" using name by (simp add: getPath_def join_def)
  have "writeFile_at ?data ?written (map_of es ?c) = Inr (Some (File ?data ?written))"
  proof (cases "map_of es ?c")
    case None
    then show ?thesis by simp
  next
    case (Some n)
    then show ?thesis using nodir by (cases n) simp_all
  qed
  from alter_entry [of "disk w" "path this" es "writeFile_at ?data ?written" ?c, OF root this]
  obtain d1 where d1: "alter (writeFile_at ?data ?written) (path this @ [?c]) (disk w) = Inr d1"
    "lookup d1 (path this) = Inr (Dir (AList.update ?c (File ?data ?written) es))"
    by auto
  have "utimes_at (map_option (stores w) ?t) (map_of (AList.update ?c (File ?data ?written) es) ?c)
      = Inr (Some (File ?data ?m))"
    by (cases ?t) (simp_all add: update_conv')
  from alter_entry [of d1 "path this" _ "utimes_at (map_option (stores w) ?t)" ?c, OF d1(2) this]
  obtain d2 where d2: "alter (utimes_at (map_option (stores w) ?t)) (path this @ [?c]) d1 = Inr d2"
    "lookup d2 (path this) =
       Inr (Dir (AList.update ?c (File ?data ?m) (AList.update ?c (File ?data ?written) es)))"
    by auto
  have "lookup d2 (path this @ [?c]) = Inr (File ?data ?m)"
    using lookup_entry [OF d2(2), of ?c] by (simp add: update_conv')
  then show ?thesis using idle d1(1) d2(1)
    by (simp add: set_entry_def p writeFile_idle utimes_idle)
qed

text \<open>
  Claim C1, amended. In a world with nothing left to the thread pool, where the root is a
  directory and the hashed path of \<open>k\<close> is not a directory, and where the deadline
  \<open>now + ttl\<close> of the effective time to live is a valid \<open>Date\<close>: \<open>set(k, v)\<close> succeeds for
  a value \<open>v\<close> that \<open>JSON.parse\<close> reads back from \<open>JSON.stringify(v)\<close>, and \<open>get(k)\<close>
  right after it, at a time \<open>t\<close> whose whole seconds are still before the deadline as the
  file system stores it, returns \<open>v\<close>.
\<close>

theorem set_get_roundtrip:
  assumes idle: "pending w = []"
    and root: "lookup (disk w) (path this) = Inr (Dir es)"
    and name: "sha1 L key \<noteq> []"
    and nodir: "\<forall>sub. map_of es (sha1 L key) \<noteq> Some (Dir sub)"
    and json: "JSON_parse L (JSON_stringify L v) = Inr v"
    and valid: "new_Date (now w + or_else (options.ttl opts) (ttl this) * 1000)
                  = Some (now w + or_else (options.ttl opts) (ttl this) * 1000)"
    and live: "of_int (t div 1000) <
                 (of_int (stores w (now w + or_else (options.ttl opts) (ttl this) * 1000)) :: rat)
                   / 1000"
  shows "fst (set_entry L this key v opts w) = Inr ()
       \<and> fst (get L this key (snd (set_entry L this key v opts w)\<lparr>now := t\<rparr>)) = Inr (Some v)"
proof -
  obtain w1 where w1: "set_entry L this key v opts w = (Inr (), w1)" "pending w1 = []"
    "lookup (disk w1) (getPath L this key) =
       Inr (File (JSON_stringify L v)
         (stores w (now w + or_else (options.ttl opts) (ttl this) * 1000)))"
    using set_entry_writes [OF idle root name nodir, of v opts] by (auto simp: valid)
  let ?w = "w1\<lparr>now := t\<rparr>"
  have tm: "time ?w = t div 1000" by (simp add: time_def)
  have lv: "of_int (time ?w) <
      (of_int (stores w (now w + or_else (options.ttl opts) (ttl this) * 1000)) :: rat) / 1000"
    unfolding tm by (rule live)
  have "pending ?w = []" using w1(2) by simp
  moreover have "lookup (disk ?w) (getPath L this key) =
       Inr (File (JSON_stringify L v)
         (stores w (now w + or_else (options.ttl opts) (ttl this) * 1000)))"
    using w1(3) by simp
  ultimately have "validate (getPath L this key) ?w = (Inr True, ?w\<lparr>sched := tl (sched ?w)\<rparr>)"
    using lv by (rule validate_live)
  then show ?thesis using w1 json by (simp add: get_def has_def readFile_idle)
qed

theorem set_get_roundtrip_witness:
  "pending (example_world (Dir []) 1000500) = []
 \<and> lookup (disk (example_world (Dir []) 1000500)) (path example_cache) = Inr (Dir [])
 \<and> sha1 example_platform ''a'' \<noteq> []
 \<and> JSON_parse example_platform (JSON_stringify example_platform True) = Inr True
 \<and> new_Date (now (example_world (Dir []) 1000500)
        + or_else (options.ttl \<lparr>options.ttl = None\<rparr>) (ttl example_cache) * 1000) = Some 87400500
 \<and> of_int (1000500 div 1000) <
      (of_int (stores (example_world (Dir []) 1000500) 87400500) :: rat) / 1000
 \<and> fst (set_entry example_platform example_cache ''a'' True \<lparr>options.ttl = None\<rparr>
        (example_world (Dir []) 1000500)) = Inr ()
 \<and> fst (get example_platform example_cache ''a''
        (snd (set_entry example_platform example_cache ''a'' True \<lparr>options.ttl = None\<rparr>
           (example_world (Dir []) 1000500))\<lparr>now := 1000500\<rparr>)) = Inr (Some True)"
  using set_get_roundtrip [of "example_world (Dir []) 1000500" example_cache "[]"
          example_platform "''a''" True "\<lparr>options.ttl = None\<rparr>" 1000500]
  by (simp add: example_world_def entry_a_def example_platform_def example_cache_def
        getPath_def join_def time_def new_Date_def ext4_def)

text \<open>
  As stated for every cache, the claim fails for a time to live beyond the range of a
  \<open>Date\<close>. A cache constructed with \<open>{ttl: 10000000000000}\<close> (seconds) computes
  \<open>new Date(Date.now() + ttl * 1000)\<close>, an Invalid Date, and \<open>utimes\<close> leaves the time of
  the write in place: at clock 1000.000 s \<open>get(k)\<close> right after \<open>set(k, v)\<close>, with no time
  passed, returns null; and so it does 2.1 s after a \<open>set\<close> at clock 1000.500 s, long
  before the time to live has passed.
\<close>

theorem set_get_huge_ttl_counterexample:
  "fst (constructor [''tmp'', ''cache''] \<lparr>options.ttl = Some 10000000000000\<rparr>
        (example_world (Dir []) 1000000)) = huge_cache
 \<and> fst (set_entry example_platform huge_cache ''a'' True \<lparr>options.ttl = None\<rparr>
        (example_world (Dir []) 1000000)) = Inr ()
 \<and> fst (get example_platform huge_cache ''a''
        (snd (set_entry example_platform huge_cache ''a'' True \<lparr>options.ttl = None\<rparr>
           (example_world (Dir []) 1000000)))) = Inr None
 \<and> fst (get example_platform huge_cache ''a''
        (snd (set_entry example_platform huge_cache ''a'' True \<lparr>options.ttl = None\<rparr>
           (example_world (Dir []) 1000500))\<lparr>now := 1002600\<rparr>)) = Inr None"
  by (simp add: constructor_def huge_cache_def set_entry_def get_def has_def example_world_def
        entry_a_def example_platform_def example_cache_def getPath_def join_def time_def
        new_Date_def ext4_def validate_def stat_def unlink_def readdir_def readFile_def
        writeFile_def utimes_def mkdir_def poll_def catch_ENOENT_def Let_def)

text \<open>
  Claim C5, amended. In a world with nothing left to the thread pool, where the root is a
  directory and the hashed path of \<open>k\<close> is not a directory: \<open>set(k, v, {ttl: t})\<close> with
  \<open>t\<close> other than 0, when \<open>now + t\<close> seconds is a valid \<open>Date\<close> that the file system stores
  as it is, leaves at the hashed path a file holding \<open>JSON.stringify(v)\<close> whose
  modification time is \<open>now + t\<close> seconds. With no per-call ttl, and with a per-call ttl of
  0, the modification time is \<open>now +\<close> the instance default, under the same condition on
  that deadline. And the instance default is 86400 seconds when the option \<open>ttl\<close> of the
  constructor is absent or 0.
\<close>

theorem set_sets_mtime:
  assumes idle: "pending w = []"
    and root: "lookup (disk w) (path this) = Inr (Dir es)"
    and name: "sha1 L key \<noteq> []"
    and nodir: "\<forall>sub. map_of es (sha1 L key) \<noteq> Some (Dir sub)"
  shows "(t \<noteq> 0 \<and> new_Date (now w + t * 1000) = Some (now w + t * 1000)
            \<and> stores w (now w + t * 1000) = now w + t * 1000 \<longrightarrow>
            fst (set_entry L this key v \<lparr>options.ttl = Some t\<rparr> w) = Inr ()
          \<and> lookup (disk (snd (set_entry L this key v \<lparr>options.ttl = Some t\<rparr> w)))
                (getPath L this key) =
              Inr (File (JSON_stringify L v) (now w + t * 1000)))
       \<and> (new_Date (now w + ttl this * 1000) = Some (now w + ttl this * 1000)
            \<and> stores w (now w + ttl this * 1000) = now w + ttl this * 1000 \<longrightarrow>
            fst (set_entry L this key v \<lparr>options.ttl = None\<rparr> w) = Inr ()
          \<and> lookup (disk (snd (set_entry L this key v \<lparr>options.ttl = None\<rparr> w)))
                (getPath L this key) =
              Inr (File (JSON_stringify L v) (now w + ttl this * 1000))
          \<and> fst (set_entry L this key v \<lparr>options.ttl = Some 0\<rparr> w) = Inr ()
          \<and> lookup (disk (snd (set_entry L this key v \<lparr>options.ttl = Some 0\<rparr> w)))
                (getPath L this key) =
              Inr (File (JSON_stringify L v) (now w + ttl this * 1000)))
       \<and> ttl (fst (constructor p \<lparr>options.ttl = None\<rparr> w0)) = 86400
       \<and> ttl (fst (constructor p \<lparr>options.ttl = Some 0\<rparr> w0)) = 86400"
proof -
  have a: "\<And>opts. fst (set_entry L this key v opts w) = Inr ()
       \<and> lookup (disk (snd (set_entry L this key v opts w))) (getPath L this key) =
              Inr (File (JSON_stringify L v)
                (case new_Date (now w + or_else (options.ttl opts) (ttl this) * 1000) of
                   None \<Rightarrow> stores w (now w)
                 | Some d \<Rightarrow> stores w d))"
    using set_entry_writes [OF idle root name nodir] by (metis fst_conv snd_conv)
  show ?thesis
    using a [of "\<lparr>options.ttl = Some t\<rparr>"] a [of "\<lparr>options.ttl =
          None\<rparr>"]
      a [of "\<lparr>options.ttl = Some 0\<rparr>"]
    by (simp add: constructor_def Let_def)
qed

theorem set_sets_mtime_witness:
  "pending (example_world (Dir []) 1000500) = []
 \<and> lookup (disk (example_world (Dir []) 1000500)) (path example_cache) = Inr (Dir [])
 \<and> sha1 example_platform ''a'' \<noteq> []
 \<and> (5 :: int) \<noteq> 0
 \<and> new_Date (now (example_world (Dir []) 1000500) + 5 * 1000) = Some 1005500
 \<and> stores (example_world (Dir []) 1000500) 1005500 = 1005500
 \<and> lookup (disk (snd (set_entry example_platform example_cache ''a'' True \<lparr>options.ttl = Some 5\<rparr>
        (example_world (Dir []) 1000500))))
      (getPath example_platform example_cache ''a'') = Inr (File ''true'' 1005500)
 \<and> new_Date (now (example_world (Dir []) 1000500) + ttl example_cache * 1000) = Some 87400500
 \<and> stores (example_world (Dir []) 1000500) 87400500 = 87400500
 \<and> lookup (disk (snd (set_entry example_platform example_cache ''a'' True \<lparr>options.ttl = None\<rparr>
        (example_world (Dir []) 1000500))))
      (getPath example_platform example_cache ''a'') = Inr (File ''true'' 87400500)
 \<and> lookup (disk (snd (set_entry example_platform example_cache ''a'' True \<lparr>options.ttl = Some 0\<rparr>
        (example_world (Dir []) 1000500))))
      (getPath example_platform example_cache ''a'') = Inr (File ''true'' 87400500)"
  using set_sets_mtime [of "example_world (Dir []) 1000500" example_cache "[]" example_platform
          "''a''" 5 True]
  by (simp add: example_world_def entry_a_def example_platform_def example_cache_def getPath_def
        join_def
        time_def new_Date_def ext4_def)

text \<open>
  As stated for every per-call ttl, the claim fails in three places. At \<open>{ttl: 0}\<close>,
  \<open>options.ttl || this.ttl\<close> takes the instance default, and the file is valid for a day
  and not until \<open>now + 0\<close>. At \<open>{ttl: 10000000000000}\<close> the deadline is an Invalid Date
  and the modification time stays the time of the write. At \<open>{ttl: 20000000000}\<close> the
  deadline lies beyond the last second ext4 stores, and the modification time is that
  second.
\<close>

theorem set_ttl_zero_counterexample:
  "lookup (disk (snd (set_entry example_platform example_cache ''a'' True \<lparr>options.ttl = Some 0\<rparr>
        (example_world (Dir []) 1000500))))
      (getPath example_platform example_cache ''a'') = Inr (File ''true'' (1000500 + 86400 * 1000))
 \<and> lookup (disk (snd (set_entry example_platform example_cache ''a'' True \<lparr>options.ttl = Some 0\<rparr>
        (example_world (Dir []) 1000500))))
      (getPath example_platform example_cache ''a'') \<noteq> Inr (File ''true'' (1000500 + 0 * 1000))
 \<and> lookup (disk (snd (set_entry example_platform example_cache ''a'' True
        \<lparr>options.ttl = Some 10000000000000\<rparr> (example_world (Dir []) 1000500))))
      (getPath example_platform example_cache ''a'') = Inr (File ''true'' 1000500)
 \<and> lookup (disk (snd (set_entry example_platform example_cache ''a'' True
        \<lparr>options.ttl = Some 10000000000000\<rparr> (example_world (Dir []) 1000500))))
      (getPath example_platform example_cache ''a'')
      \<noteq> Inr (File ''true'' (1000500 + 10000000000000 * 1000))
 \<and> lookup (disk (snd (set_entry example_platform example_cache ''a'' True
        \<lparr>options.ttl = Some 20000000000\<rparr> (example_world (Dir []) 1000500))))
      (getPath example_platform example_cache ''a'') = Inr (File ''true'' 15032385535000)
 \<and> lookup (disk (snd (set_entry example_platform example_cache ''a'' True
        \<lparr>options.ttl = Some 20000000000\<rparr> (example_world (Dir []) 1000500))))
      (getPath example_platform example_cache ''a'')
      \<noteq> Inr (File ''true'' (1000500 + 20000000000 * 1000))"
  by (simp add: set_entry_def example_world_def entry_a_def example_platform_def
        example_cache_def getPath_def join_def
        time_def new_Date_def ext4_def validate_def stat_def unlink_def readdir_def readFile_def
        writeFile_def utimes_def mkdir_def poll_def catch_ENOENT_def Let_def)

section \<open>Construction\<close>











section \<open>Clearing\<close>

lemma below_Nil: "below [] r = r"
  by (cases r) simp_all

lemma below_append: "below (p @ q) r = below p (below q r)"
  by (cases r) simp_all

lemma target_below: "target (below p r) = p @ target r"
  by (cases r) simp_all

lemma join_append: "join (p @ q) file = p @ join q file"
  by (simp add: join_def)

lemma requests_below:
  "requests (p @ q) n = map (below p) (requests q n)"
  "forEach (p @ q) es = map (below p) (forEach q es)"
proof (induction q n and q es rule: requests_forEach.induct)
  case (1 curPath data m)
  show ?case by simp
next
  case (2 curPath es)
  then show ?case by simp
next
  case (3 folder)
  show ?case by simp
next
  case (4 folder name n es)
  then show ?case by (simp add: join_append)
qed

lemma perform_below:
  assumes "map_of es x = Some n" and "target r \<noteq> []"
  shows "perform (below [x] r) (Dir es) = Dir (AList.update x (perform r n) es)"
proof (cases r)
  case (Unlink q)
  then show ?thesis using assms
    by (simp add: alter_step update_triv split: sum.splits)
next
  case (Rmdir q)
  then show ?thesis using assms
    by (simp add: alter_step update_triv split: sum.splits)
qed

lemma fold_perform_below:
  assumes "map_of es x = Some n" and "\<forall>r\<in>set rs. target r \<noteq> []"
  shows "fold perform (map (below [x]) rs) (Dir es) = Dir (AList.update x (fold perform rs n) es)"
  using assms
proof (induction rs arbitrary: n es)
  case Nil
  then show ?case by (simp add: update_triv)
next
  case (Cons r rs)
  have "perform (below [x] r) (Dir es) = Dir (AList.update x (perform r n) es)"
    using Cons.prems by (simp add: perform_below)
  moreover have "map_of (AList.update x (perform r n) es) x = Some (perform r n)"
    by (simp add: update_conv')
  ultimately show ?case using Cons.IH [of "AList.update x (perform r n) es" "perform r n"] Cons.prems
    by simp
qed

lemma lookup_fold_perform_below:
  assumes "lookup d q = Inr n" and "\<forall>r\<in>set rs. target r \<noteq> []"
  shows "lookup (fold perform (map (below q) rs) d) q = Inr (fold perform rs n)"
  using assms
proof (induction q arbitrary: d rs)
  case Nil
  then show ?case by (simp add: below_Nil)
next
  case (Cons a q)
  then obtain ds where d: "d = Dir ds" by (cases d) simp_all
  with Cons.prems obtain n1 where n1: "map_of ds a = Some n1" "lookup n1 q = Inr n"
    by (auto split: option.splits)
  let ?rs = "map (below q) rs"
  have t: "\<forall>r\<in>set ?rs. target r \<noteq> []" using Cons.prems(2) by (simp add: target_below)
  have "map (below (a # q)) rs = map (below [a]) ?rs"
    using below_append [of "[a]" q] by (induction rs) simp_all
  then have "fold perform (map (below (a # q)) rs) d = fold perform (map (below [a]) ?rs) (Dir ds)"
    by (simp only: d)
  also have "\<dots> = Dir (AList.update a (fold perform ?rs n1) ds)"
    using n1(1) t by (rule fold_perform_below)
  finally show ?case using Cons.IH [OF n1(2) Cons.prems(2)] by (simp add: update_conv')
qed

lemma requests_targets: "\<forall>r\<in>set (requests [x] n). target r \<noteq> []"
  using requests_below(1) [of "[x]" "[]" n] by (simp add: target_below)

lemma forEach_targets:
  "\<forall>e\<in>set es. fst e \<noteq> [] \<Longrightarrow> \<forall>r\<in>set (forEach [] es). target r \<noteq> []"
proof (induction es)
  case Nil
  show ?case by simp
next
  case (Cons e es)
  obtain y m where e: "e = (y, m)" by (cases e)
  then have "join [] y = [y]" using Cons.prems by (simp add: join_def)
  then show ?case using Cons e requests_targets [of y m] by auto
qed

lemma filter_delete:
  "filter P (AList.delete y es) = filter (\<lambda>e. P e \<and> fst e \<noteq> y) es"
  by (induction es) (simp_all add: case_prod_beta)

lemma wipe_entries:
  assumes "\<forall>e\<in>set xs. map_of es (fst e) = Some (snd e) \<and> fst e \<noteq> []
             \<and> (\<forall>x es'. map_of es' x = Some (snd e) \<longrightarrow>
                    fold perform (requests [x] (snd e)) (Dir es') = Dir (AList.delete x es'))"
    and "distinct (map fst xs)"
  shows "fold perform (forEach [] xs) (Dir es) = Dir (filter (\<lambda>e. fst e \<notin> fst ` set xs) es)"
  using assms
proof (induction xs arbitrary: es)
  case Nil
  then show ?case by simp
next
  case (Cons e xs)
  obtain y m where e: "e = (y, m)" by (cases e)
  have y: "map_of es y = Some m" "y \<noteq> []" using Cons.prems(1) e by auto
  have 1: "fold perform (requests [y] m) (Dir es) = Dir (AList.delete y es)"
    using Cons.prems(1) e y(1) by auto
  have 2: "\<forall>e\<in>set xs. map_of (AList.delete y es) (fst e) = Some (snd e) \<and> fst e \<noteq> []
             \<and> (\<forall>x es'. map_of es' x = Some (snd e) \<longrightarrow>
                    fold perform (requests [x] (snd e)) (Dir es') = Dir (AList.delete x es'))"
    using Cons.prems e by (auto simp: delete_conv')
  have 3: "distinct (map fst xs)" using Cons.prems(2) by simp
  have "filter (\<lambda>z. fst z \<notin> fst ` set xs) (AList.delete y es)
      = filter (\<lambda>z. fst z \<notin> fst ` set (e # xs)) es"
    unfolding e by (simp add: filter_delete) (rule filter_cong, auto)
  then show ?case using Cons.IH [OF 2 3] 1 y(2) e by (simp add: join_def)
qed

lemma wipe_node:
  "wellformed n \<Longrightarrow> map_of es x = Some n \<Longrightarrow>
   fold perform (requests [x] n) (Dir es) = Dir (AList.delete x es)"
proof (induction n arbitrary: es x)
  case (File data m)
  then show ?case by simp
next
  case (Dir sub)
  have each: "\<forall>e\<in>set sub. map_of sub (fst e) = Some (snd e) \<and> fst e \<noteq> []
             \<and> (\<forall>x es'. map_of es' x = Some (snd e) \<longrightarrow>
                    fold perform (requests [x] (snd e)) (Dir es') = Dir (AList.delete x es'))"
  proof (intro ballI conjI allI impI)
    fix e assume e: "e \<in> set sub"
    show "map_of sub (fst e) = Some (snd e)" using Dir.prems(1) e by simp
    show "fst e \<noteq> []" using Dir.prems(1) e by simp
    fix x :: string and es' :: "(string \<times> node) list"
    assume "map_of es' x = Some (snd e)"
    moreover have "wellformed (snd e)" using Dir.prems(1) e by simp
    moreover have "snd e \<in> Basic_BNFs.snds e" by (cases e) simp
    ultimately show "fold perform (requests [x] (snd e)) (Dir es') = Dir (AList.delete x es')"
      using Dir.IH [OF e] by blast
  qed
  have empty: "fold perform (forEach [] sub) (Dir sub) = Dir []"
    using wipe_entries [OF each] Dir.prems(1) by simp
  have t: "\<forall>r\<in>set (forEach [] sub). target r \<noteq> []"
    using Dir.prems(1) by (intro forEach_targets) simp
  have "forEach [x] sub = map (below [x]) (forEach [] sub)"
    using requests_below(2) [of "[x]" "[]" sub] by simp
  then have "fold perform (forEach [x] sub) (Dir es) = Dir (AList.update x (Dir []) es)"
    using fold_perform_below [OF Dir.prems(2) t] empty by simp
  then show ?case by (simp add: update_conv' delete_update_same)
qed

lemma complete_all:
  "fold complete (replicate (length (pending w)) 0) w =
     w\<lparr>disk := fold perform (pending w) (disk w), pending := []\<rparr>"
proof (induction "pending w" arbitrary: w)
  case Nil
  then show ?case by simp
next
  case (Cons r rs)
  let ?w1 = "w\<lparr>disk := perform r (disk w), pending := rs\<rparr>"
  have p: "pending w = r # rs" using Cons.hyps(2) by simp
  have c: "complete 0 w = ?w1" by (simp add: complete_def p)
  have "rs = pending ?w1" by simp
  from Cons.hyps(1) [OF this] show ?case by (simp add: p c)
qed

lemma wipe_folder:
  assumes root: "lookup d (q @ [c]) = Inr (Dir es)" and wf: "wellformed (Dir es)"
  shows "\<exists>es0. lookup d q = Inr (Dir es0) \<and>
           lookup (fold perform (requests (q @ [c]) (Dir es)) d) q = Inr (Dir (AList.delete c es0))"
proof -
  obtain es0 where es0: "lookup d q = Inr (Dir es0)" "map_of es0 c = Some (Dir es)"
    using lookup_file_parent [OF root] by blast
  have "requests (q @ [c]) (Dir es) = map (below q) (requests [c] (Dir es))"
    by (rule requests_below(1))
  then have "lookup (fold perform (requests (q @ [c]) (Dir es)) d) q
      = Inr (fold perform (requests [c] (Dir es)) (Dir es0))"
    using lookup_fold_perform_below [OF es0(1) requests_targets] by (simp del: requests.simps)
  then show ?thesis using wipe_node [OF wf es0(2)] es0(1) by (simp del: requests.simps)
qed

text \<open>
  What awaiting every request would give. When the thread pool carries out all the
  requests of the wipe, in the order they were handed over, before the \<open>mkdir\<close> of
  \<open>createFolder\<close>, then \<open>clear()\<close> leaves the root an empty directory, with nothing left
  to the thread pool, and \<open>getAllKeys()\<close> returns the empty list.
\<close>

lemma clear_in_order:
  assumes idle: "pending w = []"
    and root: "lookup (disk w) (path this) = Inr (Dir es)"
    and below_root: "path this \<noteq> []"
    and wf: "wellformed (Dir es)"
    and order: "sched w = s # replicate (length (requests (path this) (Dir es))) 0 # rest"
  shows "\<exists>w'. clear this w = (Inr (), w') \<and> pending w' = [] \<and> now w' = now w
           \<and> lookup (disk w') (path this) = Inr (Dir [])
           \<and> fst (getAllKeys this w') = Inr []"
proof -
  obtain q c where p: "path this = q @ [c]" using below_root by (cases "path this" rule: rev_cases) auto
  let ?rs = "requests (path this) (Dir es)"
  let ?w1 = "w\<lparr>sched := replicate (length ?rs) 0 # rest, pending := ?rs\<rparr>"
  have rs: "?rs = forEach (path this) es @ [Rmdir (path this)]" by simp
  have d: "clearFolder this w = (Inr (), ?w1)"
    using idle root order by (simp add: clearFolder_def deleteFolderRecursive_def poll_idle)
  note requests.simps [simp del]
  let ?d2 = "fold perform ?rs (disk w)"
  let ?w2 = "w\<lparr>sched := rest, disk := ?d2\<rparr>"
  have "poll ?w1 = fold complete (replicate (length ?rs) 0) (?w1\<lparr>sched := rest\<rparr>)"
    by (simp add: poll_def)
  also have "\<dots> = ?w2" using idle complete_all [of "?w1\<lparr>sched := rest\<rparr>"] by simp
  finally have poll: "poll ?w1 = ?w2" .
  obtain es0 where es0: "lookup (disk w) q = Inr (Dir es0)"
    "lookup ?d2 q = Inr (Dir (AList.delete c es0))"
    using wipe_folder [of "disk w" q c es] root wf p by auto
  have "mkdir_at (map_of (AList.delete c es0) c) = Inr (Some (Dir []))"
    by (simp add: delete_conv')
  from alter_entry [of ?d2 q _ mkdir_at c "Some (Dir [])", OF es0(2) this]
  obtain d3 where d3: "alter mkdir_at (q @ [c]) ?d2 = Inr d3"
    "lookup d3 q = Inr (Dir (AList.update c (Dir []) (AList.delete c es0)))"
    by auto
  have l3: "lookup d3 (path this) = Inr (Dir [])"
    using lookup_entry [OF d3(2), of c] p by (simp add: update_conv')
  let ?w3 = "?w2\<lparr>disk := d3\<rparr>"
  have m: "mkdir (path this) ?w1 = (Inr (), ?w3)"
    using d3(1) poll unfolding p by (simp add: mkdir_def)
  have i3: "pending ?w3 = []" using idle by simp
  have "getAllKeys this ?w3 = (Inr [], ?w3\<lparr>sched := tl (sched ?w3)\<rparr>)"
    using i3 l3 by (simp add: getAllKeys_idle)
  then have "createFolder this ?w1 = (Inr (), ?w3\<lparr>sched := tl (sched ?w3)\<rparr>)"
    by (simp add: createFolder_def m validateCache_def)
  moreover have "fst (getAllKeys this (?w3\<lparr>sched := tl (sched ?w3)\<rparr>)) = Inr []"
    using i3 l3 by (simp add: getAllKeys_idle)
  ultimately show ?thesis using d idle l3 by (simp add: clear_def)
qed

text \<open>
  Claim C4 asks that after \<open>clear()\<close> the cache is empty and usable at once. The source
  hands \<open>unlink\<close> and \<open>rmdir\<close> to the thread pool without awaiting them (where \<open>validate\<close>
  and \<open>delete\<close> write \<open>await unlink\<close>), so the order of the wipe and of \<open>mkdir\<close> is left to
  the thread pool. In the world below the root holds one live entry; \<open>unlink\<close> takes
  effect before the \<open>mkdir\<close> of \<open>createFolder\<close>, which finds the root still there
  (\<open>EEXIST\<close>), and \<open>rmdir\<close> takes effect after that \<open>mkdir\<close>, before the \<open>readdir\<close> of
  the validation pass. Then \<open>clear()\<close> succeeds with nothing left to the thread pool,
  the root directory is gone, and \<open>set(k, v)\<close> right after it rejects with \<open>ENOENT\<close>.
\<close>

theorem clear_then_set_fails:
  "fst (clear example_cache (example_world (Dir [entry_a]) 1000500\<lparr>sched := [[], [0], [0]]\<rparr>)) = Inr ()
 \<and> pending (snd (clear example_cache (example_world (Dir [entry_a]) 1000500\<lparr>sched := [[], [0], [0]]\<rparr>))) = []
 \<and> lookup (disk (snd (clear example_cache (example_world (Dir [entry_a]) 1000500\<lparr>sched := [[], [0], [0]]\<rparr>))))
      (path example_cache) = Inl ENOENT
 \<and> fst (set_entry example_platform example_cache ''a'' False \<lparr>options.ttl = None\<rparr>
      (snd (clear example_cache (example_world (Dir [entry_a]) 1000500\<lparr>sched := [[], [0], [0]]\<rparr>))))
    = Inl ENOENT
 \<and> lookup (disk (snd (set_entry example_platform example_cache ''a'' False \<lparr>options.ttl = None\<rparr>
      (snd (clear example_cache (example_world (Dir [entry_a]) 1000500\<lparr>sched := [[], [0], [0]]\<rparr>))))))
      (path example_cache) = Inl ENOENT"
  by (simp add: clear_def clearFolder_def deleteFolderRecursive_def createFolder_def
        validateCache_def
        getAllKeys_def set_entry_def complete_def example_world_def entry_a_def example_platform_def example_cache_def getPath_def join_def time_def validate_def stat_def unlink_def readdir_def readFile_def writeFile_def utimes_def mkdir_def poll_def catch_ENOENT_def Let_def new_Date_def ext4_def)

end
